theory Spec2Isabelle
  imports Main "HOL-Library.Multiset"
begin

section \<open>Text primitives of the Python runtime\<close>

text \<open>
  A text is a \<^typ>\<open>string\<close>; its characters are read as the code points U+0000 to U+00FF.
  The character classes below are the ones Python's \<open>str\<close> methods and the \<open>re\<close>
  module use on that range.
\<close>

definition code :: "char \<Rightarrow> nat" where
  "code c = of_char c"

definition is_az :: "char \<Rightarrow> bool" where
  "is_az c = (97 \<le> code c \<and> code c \<le> 122)"

definition is_word_char :: "char \<Rightarrow> bool" where
  "is_word_char c =
     (let n = code c in
        (48 \<le> n \<and> n \<le> 57) \<or> (65 \<le> n \<and> n \<le> 90) \<or> n = 95 \<or> (97 \<le> n \<and> n \<le> 122) \<or>
        n = 170 \<or> n = 178 \<or> n = 179 \<or> n = 181 \<or> n = 185 \<or> n = 186 \<or>
        (188 \<le> n \<and> n \<le> 190) \<or> (192 \<le> n \<and> n \<le> 214) \<or> (216 \<le> n \<and> n \<le> 246) \<or>
        248 \<le> n)"

definition is_space :: "char \<Rightarrow> bool" where
  "is_space c =
     (let n = code c in
        (9 \<le> n \<and> n \<le> 13) \<or> (28 \<le> n \<and> n \<le> 32) \<or> n = 133 \<or> n = 160)"

definition lower_char :: "char \<Rightarrow> char" where
  "lower_char c =
     (let n = code c in
        if (65 \<le> n \<and> n \<le> 90) \<or> (192 \<le> n \<and> n \<le> 214) \<or> (216 \<le> n \<and> n \<le> 222)
        then char_of (n + 32) else c)"

definition py_lower :: "string \<Rightarrow> string" where
  "py_lower s = map lower_char s"

definition py_strip :: "string \<Rightarrow> string" where
  "py_strip s = rev (dropWhile is_space (rev (dropWhile is_space s)))"

fun py_split_nl :: "string \<Rightarrow> string list" where
  "py_split_nl [] = [[]]"
| "py_split_nl (c # cs) =
     (if c = CHR 0x0A then [] # py_split_nl cs
      else (case py_split_nl cs of [] \<Rightarrow> [[c]] | l # ls \<Rightarrow> (c # l) # ls))"

subsection \<open>The pattern \<open>\b[a-z]+\b\<close>\<close>

text \<open>
  \<open>\b\<close> holds between two neighbouring positions when exactly one of them is a word
  character; the outside of the text counts as a non-word character.
\<close>

fun wordy :: "char option \<Rightarrow> bool" where
  "wordy None = False"
| "wordy (Some c) = is_word_char c"

definition at_boundary :: "char option \<Rightarrow> char option \<Rightarrow> bool" where
  "at_boundary l r = (wordy l \<noteq> wordy r)"

fun char_at :: "string \<Rightarrow> nat \<Rightarrow> char option" where
  "char_at [] i = None"
| "char_at (c # cs) 0 = Some c"
| "char_at (c # cs) (Suc i) = char_at cs i"

text \<open>
  One attempt to match at the current position: \<open>prev\<close> is the character before it,
  \<open>s\<close> the rest of the text. \<open>[a-z]+\<close> is greedy, so the candidate lengths are
  tried from the whole run of letters down to one letter; the result is the length of the
  match.
\<close>

definition match_here :: "char option \<Rightarrow> string \<Rightarrow> nat option" where
  "match_here prev s =
     (if at_boundary prev (char_at s 0)
      then find (\<lambda>k. at_boundary (char_at s (k - 1)) (char_at s k))
             (rev [1 ..< Suc (length (takeWhile is_az s))])
      else None)"

lemma find_Some_mem: "find P xs = Some x \<Longrightarrow> x \<in> set xs \<and> P x"
  by (induction xs) (auto split: if_splits)

lemma match_here_pos: "match_here prev s = Some k \<Longrightarrow> 0 < k \<and> k \<le> length s"
proof -
  assume "match_here prev s = Some k"
  then have "find (\<lambda>k. at_boundary (char_at s (k - 1)) (char_at s k))
      (rev [1 ..< Suc (length (takeWhile is_az s))]) = Some k"
    by (simp add: match_here_def split: if_splits)
  then have "k \<in> set (rev [1 ..< Suc (length (takeWhile is_az s))])"
    by (rule find_Some_mem [THEN conjunct1])
  then have "1 \<le> k \<and> k \<le> length (takeWhile is_az s)"
    by (simp only: set_rev set_upt atLeastLessThan_iff less_Suc_eq_le)
  moreover have "length (takeWhile is_az s) \<le> length s"
    by (rule length_takeWhile_le)
  ultimately show ?thesis by linarith
qed

text \<open>
  \<open>re.findall\<close>: scan from left to right; after a match the scan resumes at its end,
  otherwise one character further.
\<close>

function findall :: "char option \<Rightarrow> string \<Rightarrow> string list" where
  "findall prev [] = []"
| "findall prev (c # cs) =
     (case match_here prev (c # cs) of
        Some k \<Rightarrow> take k (c # cs) # findall (char_at (c # cs) (k - 1)) (drop k (c # cs))
      | None \<Rightarrow> findall (Some c) cs)"
  by pat_completeness auto
termination
  by (relation "measure (\<lambda>(prev, s). length s)") (auto dest: match_here_pos)

subsection \<open>\<open>collections.Counter\<close>\<close>

text \<open>
  A counter is a dictionary in insertion order: a new word is appended with count 1, a
  known word has its count raised in place.
\<close>

fun count_element :: "string \<Rightarrow> (string \<times> int) list \<Rightarrow> (string \<times> int) list" where
  "count_element w [] = [(w, 1)]"
| "count_element w ((v, c) # rest) =
     (if v = w then (v, c + 1) # rest else (v, c) # count_element w rest)"

definition Counter :: "string list \<Rightarrow> (string \<times> int) list" where
  "Counter ws = foldl (\<lambda>m w. count_element w m) [] ws"

text \<open>
  \<open>most_common(n)\<close> is \<open>heapq.nlargest(n, items, key=count)\<close>, that is
  \<open>sorted(items, key=count, reverse=True)[:n]\<close>: a stable sort by descending count, cut
  after \<open>n\<close> entries (none when \<open>n\<close> is negative).
\<close>

definition most_common :: "int \<Rightarrow> (string \<times> int) list \<Rightarrow> (string \<times> int) list" where
  "most_common n m = take (nat n) (sort_key (\<lambda>p. - snd p) m)"

section \<open>Analyzer\<close>

text \<open>
  \<^verbatim>\<open>
  def get_top_words(text, num_words=10):
      text = text.lower()
      words = re.findall(r'\b[a-z]+\b', text)
      word_counts = Counter(words)
      return word_counts.most_common(num_words)
  \<close>
\<close>

definition get_top_words :: "string \<Rightarrow> int \<Rightarrow> (string \<times> int) list" where
  "get_top_words text num_words =
     most_common num_words (Counter (findall None (py_lower text)))"

text \<open>
  \<^verbatim>\<open>
  def extract_title(book_text):
      for line in book_text.split('\n'):
          if line.strip().lower().startswith('title:'):
              return line.strip()[6:].strip()
      return "Unknown Title"
  \<close>
  \<open>first_title\<close> is the loop over the lines.
\<close>

fun first_title :: "string list \<Rightarrow> string" where
  "first_title [] = ''Unknown Title''"
| "first_title (line # lines) =
     (if take 6 (py_lower (py_strip line)) = ''title:''
      then py_strip (drop 6 (py_strip line))
      else first_title lines)"

definition extract_title :: "string \<Rightarrow> string" where
  "extract_title book_text = first_title (py_split_nl book_text)"

subsection \<open>Runs of characters and lines, for stating what the analyzer computes\<close>

text \<open>
  Maximal runs of the characters satisfying \<open>P\<close>, from left to right. With
  \<^const>\<open>is_az\<close> these are the maximal runs of lowercase ASCII letters, with
  \<^const>\<open>is_word_char\<close> the maximal runs of word characters.
\<close>

function runs :: "(char \<Rightarrow> bool) \<Rightarrow> string \<Rightarrow> string list" where
  "runs P [] = []"
| "runs P (c # cs) =
     (if P c then (c # takeWhile P cs) # runs P (dropWhile P cs) else runs P cs)"
  by pat_completeness auto
termination
  by (relation "measure (\<lambda>(P, s). length s)") (auto simp: length_dropWhile_le less_Suc_eq_le)

text \<open>
  The maximal runs of word characters that consist of the letters \<open>a\<close> to \<open>z\<close> only.
\<close>

definition letter_words :: "string \<Rightarrow> string list" where
  "letter_words s = filter (list_all is_az) (runs is_word_char s)"

text \<open>The lines of a text put together again, with a newline between two lines.\<close>

fun join_nl :: "string list \<Rightarrow> string" where
  "join_nl [] = []"
| "join_nl [l] = l"
| "join_nl (l # l' # ls) = l @ CHR 0x0A # join_nl (l' # ls)"

text \<open>
  The title as the specification words it: the first line whose own first six characters
  are the marker in any case, and the trimmed rest of that line.
\<close>

definition spec_extract_title :: "string \<Rightarrow> string" where
  "spec_extract_title text =
     (case find (\<lambda>l. py_lower (take 6 l) = ''title:'') (py_split_nl text) of
        None \<Rightarrow> ''Unknown Title''
      | Some l \<Rightarrow> py_strip (drop 6 l))"

section \<open>Fetcher\<close>

text \<open>
  The network is a parameter: \<open>net url\<close> is the decoded body, or the message of the
  exception that opening, reading or decoding raised.
\<close>

definition download_book :: "(string \<Rightarrow> string + string) \<Rightarrow> string \<Rightarrow> string option \<times> string list" where
  "download_book net url =
     (case net url of
        Inr raw_text \<Rightarrow> (Some raw_text, [])
      | Inl e \<Rightarrow> (None, [''we had an error downloaded book: '' @ e]))"

section \<open>Store\<close>

text \<open>
  The table \<open>word_frequencies\<close> is the list of its rows in insertion order; a database
  file without the table is \<open>None\<close>. Every store operation opens its own connection,
  and \<open>store_io\<close> says whether the backing store raises while the operation connects,
  executes or commits (with the message of the exception).
\<close>

record wf_row =
  title :: string
  word :: string
  frequency :: int

type_synonym database = "wf_row list option"

datatype store_io = Works | Raises string

definition no_such_table :: string where
  "no_such_table = ''no such table: word_frequencies''"

text \<open>\<open>initialize_database\<close> has no handler: an exception ends the program (\<open>Inl\<close>).\<close>

definition initialize_database :: "store_io \<Rightarrow> database \<Rightarrow> string + database" where
  "initialize_database io d =
     (case io of
        Raises e \<Rightarrow> Inl e
      | Works \<Rightarrow> (case d of None \<Rightarrow> Inr (Some []) | Some rows \<Rightarrow> Inr (Some rows)))"

text \<open>
  \<open>INSERT OR REPLACE\<close> under \<open>PRIMARY KEY (title, word)\<close>: the rows with the same key
  are deleted, then the new row is inserted.
\<close>

definition insert_or_replace :: "string \<Rightarrow> wf_row list \<Rightarrow> string \<times> int \<Rightarrow> wf_row list" where
  "insert_or_replace t rows p =
     filter (\<lambda>r. \<not> (title r = t \<and> word r = fst p)) rows
       @ [\<lparr>title = t, word = fst p, frequency = snd p\<rparr>]"

text \<open>
  \<^verbatim>\<open>
  def save_to_database(title, word_freqs):
      try:
          conn = sqlite3.connect("franciabooks.db")
          cursor = conn.cursor()
          for word, freq in word_freqs:
              cursor.execute("INSERT OR REPLACE INTO word_frequencies (title, word, frequency)
                              VALUES (?, ?, ?)", (title, word, freq))
          conn.commit()
          conn.close()
          print(f"Saved '{title}' to the database.")
      except Exception as e:
          print(f"Error saving to database: {e}")
  \<close>
  The result is the database and the lines printed. When an exception is raised before
  the commit, the connection is dropped with its transaction open and nothing is written.
  Without the table the first \<open>execute\<close> raises; with no pair there is none.
\<close>

definition save_to_database ::
  "store_io \<Rightarrow> string \<Rightarrow> (string \<times> int) list \<Rightarrow> database \<Rightarrow> database \<times> string list" where
  "save_to_database io t word_freqs d =
     (case io of
        Raises e \<Rightarrow> (d, [''Error saving to database: '' @ e])
      | Works \<Rightarrow>
          (case d of
             None \<Rightarrow>
               if word_freqs = [] then (d, [''Saved '' @ [CHR 0x27] @ t @ [CHR 0x27] @ '' to the database.''])
               else (d, [''Error saving to database: '' @ no_such_table])
           | Some rows \<Rightarrow>
               (Some (foldl (insert_or_replace t) rows word_freqs),
                [''Saved '' @ [CHR 0x27] @ t @ [CHR 0x27] @ '' to the database.''])))"

text \<open>
  \<open>SELECT word, frequency ... WHERE title = ? ORDER BY frequency DESC LIMIT 10\<close>. SQL
  leaves the order of rows of equal frequency open: \<open>tie\<close> ranks the rows in the order
  in which the engine delivers them to the sort, so that a statement proved for every
  \<open>tie\<close> holds whatever the engine does. \<open>rowid_order\<close> is the order of insertion.
\<close>

definition select_top :: "(wf_row \<Rightarrow> nat) \<Rightarrow> string \<Rightarrow> wf_row list \<Rightarrow> (string \<times> int) list" where
  "select_top tie t rows =
     map (\<lambda>r. (word r, frequency r))
       (take 10 (sort_key (\<lambda>r. - frequency r) (sort_key tie (filter (\<lambda>r. title r = t) rows))))"

definition rowid_order :: "wf_row \<Rightarrow> nat" where
  "rowid_order r = 0"

text \<open>
  \<^verbatim>\<open>
  def search_database(title):
      try:
          ...
          results = cursor.fetchall()
          conn.close()
          if results:
              return results
          else:
              return None
      except Exception as e:
          print(f"Error searching database: {e}")
          return None
  \<close>
\<close>

definition search_database ::
  "store_io \<Rightarrow> (wf_row \<Rightarrow> nat) \<Rightarrow> string \<Rightarrow> database \<Rightarrow> (string \<times> int) list option \<times> string list" where
  "search_database io tie t d =
     (case io of
        Raises e \<Rightarrow> (None, [''Error searching database: '' @ e])
      | Works \<Rightarrow>
          (case d of
             None \<Rightarrow> (None, [''Error searching database: '' @ no_such_table])
           | Some rows \<Rightarrow>
               (let results = select_top tie t rows
                in if results \<noteq> [] then (Some results, []) else (None, []))))"

text \<open>A sequence of saves, each with its own outcome of the backing store.\<close>

definition run_saves :: "(store_io \<times> string \<times> (string \<times> int) list) list \<Rightarrow> database \<Rightarrow> database" where
  "run_saves ops d = foldl (\<lambda>d' (io, t, wfs). fst (save_to_database io t wfs d')) d ops"

definition key_of :: "wf_row \<Rightarrow> string \<times> string" where
  "key_of r = (title r, word r)"

text \<open>
  What a save of the pairs \<open>ps\<close> under title \<open>t\<close> appends: for every word its last
  pair, in the order of these last occurrences.
\<close>

fun last_entries :: "string \<Rightarrow> (string \<times> int) list \<Rightarrow> wf_row list" where
  "last_entries t [] = []"
| "last_entries t (p # ps) =
     (if fst p \<in> fst ` set ps then last_entries t ps
      else \<lparr>title = t, word = fst p, frequency = snd p\<rparr> # last_entries t ps)"

text \<open>The primary key constraint: no two rows of the table share a key.\<close>

definition one_per_key :: "database \<Rightarrow> bool" where
  "one_per_key d = (case d of None \<Rightarrow> True | Some rows \<Rightarrow> distinct (map key_of rows))"

section \<open>The two user actions\<close>

record app =
  db :: database
  output_area :: string
  console :: "string list"
  warnings :: "(string \<times> string) list"

fun digits :: "nat \<Rightarrow> string" where
  "digits n = (if n < 10 then [char_of (48 + n)] else digits (n div 10) @ [char_of (48 + n mod 10)])"

definition str_int :: "int \<Rightarrow> string" where
  "str_int i = (if i < 0 then CHR ''-'' # digits (nat (- i)) else digits (nat i))"

definition word_lines :: "(string \<times> int) list \<Rightarrow> string" where
  "word_lines rs = concat (map (\<lambda>(w, f). w @ '': '' @ str_int f @ [CHR 0x0A]) rs)"

definition not_found_report :: string where
  "not_found_report = ''Book was not found.'' @ [CHR 0x0A]"

definition download_failed_report :: string where
  "download_failed_report = ''Book could not be downloaded.'' @ [CHR 0x0A]"

definition on_search_title :: "store_io \<Rightarrow> (wf_row \<Rightarrow> nat) \<Rightarrow> string \<Rightarrow> app \<Rightarrow> app" where
  "on_search_title io tie title_entry st =
     (let t = py_strip title_entry in
      if t = [] then st\<lparr>warnings := warnings st @ [(''Missing Title'', ''Enter a book title.'')]\<rparr>
      else
        (case search_database io tie t (db st) of
           (results, printed) \<Rightarrow>
             st\<lparr>console := console st @ printed,
                output_area :=
                  (case results of
                     None \<Rightarrow> not_found_report
                   | Some rs \<Rightarrow>
                       if rs \<noteq> []
                       then ''Top words for '' @ [CHR 0x27] @ t @ [CHR 0x27] @ '':'' @ [CHR 0x0A]
                              @ word_lines rs
                       else not_found_report)\<rparr>))"

definition on_fetch_from_url ::
  "(string \<Rightarrow> string + string) \<Rightarrow> store_io \<Rightarrow> string \<Rightarrow> app \<Rightarrow> app" where
  "on_fetch_from_url net io url_entry st =
     (let url = py_strip url_entry in
      if url = [] then st\<lparr>warnings := warnings st @ [(''Missing info'', ''Please enter both a URL.'')]\<rparr>
      else
        (case download_book net url of
           (book_text, printed) \<Rightarrow>
             (case book_text of
                None \<Rightarrow> st\<lparr>console := console st @ printed, output_area := download_failed_report\<rparr>
              | Some text \<Rightarrow>
                  if text \<noteq> [] then
                    (let t = extract_title text;
                         top_words = get_top_words text 10
                     in case save_to_database io t top_words (db st) of
                          (d, printed') \<Rightarrow>
                            st\<lparr>db := d,
                               console := console st @ printed @ printed',
                               output_area :=
                                 ''Saved '' @ [CHR 0x27] @ t @ [CHR 0x27] @ '' to database with top words:''
                                   @ [CHR 0x0A] @ word_lines top_words\<rparr>)
                  else st\<lparr>console := console st @ printed, output_area := download_failed_report\<rparr>)))"


section \<open>Example inputs\<close>

text \<open>A network on which every request fails, and a state of the program with one stored book.\<close>

definition offline :: "string \<Rightarrow> string + string" where
  "offline url = Inl ''<urlopen error no host given>''"

definition example_app :: app where
  "example_app =
     \<lparr>db = Some [\<lparr>title = ''Moby Dick'', word = ''whale'', frequency = 7\<rparr>],
      output_area = [], console = [], warnings = []\<rparr>"

section \<open>Properties of the analyzer\<close>

lemma count_element_positive:
  "list_all (\<lambda>p. 1 \<le> snd p) m \<Longrightarrow> list_all (\<lambda>p. 1 \<le> snd p) (count_element w m)"
  by (induction w m rule: count_element.induct) auto

lemma foldl_count_element_positive:
  "list_all (\<lambda>p. 1 \<le> snd p) m \<Longrightarrow>
   list_all (\<lambda>p. 1 \<le> snd p) (foldl (\<lambda>m w. count_element w m) m ws)"
  by (induction ws arbitrary: m) (simp_all add: count_element_positive)

lemma Counter_positive: "list_all (\<lambda>p. 1 \<le> snd p) (Counter ws)"
  unfolding Counter_def by (rule foldl_count_element_positive) simp

lemma most_common_subset: "set (most_common n m) \<subseteq> set m"
proof -
  have "set (most_common n m) \<subseteq> set (sort_key (\<lambda>p. - snd p) m)"
    unfolding most_common_def by (rule set_take_subset)
  then show ?thesis by simp
qed

lemma most_common_length: "length (most_common n m) \<le> nat n"
  by (simp add: most_common_def)

lemma most_common_descending: "sorted_wrt (\<lambda>a b. snd b \<le> snd a) (most_common n m)"
proof -
  have "sorted (map (\<lambda>p. - snd p) (sort_key (\<lambda>p. - snd p) m))"
    by (rule sorted_sort_key)
  then have "sorted_wrt (\<lambda>a b. snd b \<le> snd a) (sort_key (\<lambda>p. - snd p) m)"
    by (simp add: sorted_wrt_map)
  then show ?thesis
    unfolding most_common_def by (rule sorted_wrt_take)
qed

text \<open>
  Claim C2. For every text and every \<open>n\<close>, \<open>get_top_words\<close> returns at most \<open>n\<close>
  entries (none when \<open>n\<close> is not positive), every count is at least 1, and the counts
  do not increase from the first entry to the last.
\<close>

theorem top_words_bounded_positive_descending:
  "length (get_top_words text n) \<le> nat n \<and>
   (\<forall>p \<in> set (get_top_words text n). 1 \<le> snd p) \<and>
   sorted_wrt (\<lambda>a b. snd b \<le> snd a) (get_top_words text n)"
proof (intro conjI)
  show "length (get_top_words text n) \<le> nat n"
    unfolding get_top_words_def by (rule most_common_length)
  have "list_all (\<lambda>p. 1 \<le> snd p) (Counter (findall None (py_lower text)))"
    by (rule Counter_positive)
  then show "\<forall>p \<in> set (get_top_words text n). 1 \<le> snd p"
    unfolding get_top_words_def using most_common_subset [of n] by (auto simp: list_all_iff)
  show "sorted_wrt (\<lambda>a b. snd b \<le> snd a) (get_top_words text n)"
    unfolding get_top_words_def by (rule most_common_descending)
qed

theorem top_words_bounded_positive_descending_witness:
  "get_top_words ''b a the a the cat the'' 3 = [(''the'', 3), (''a'', 2), (''b'', 1)] \<and>
   length (get_top_words ''b a the a the cat the'' 3) \<le> nat 3 \<and>
   1 \<le> snd (''a'', 2 :: int) \<and>
   sorted_wrt (\<lambda>a b. snd b \<le> snd a) (get_top_words ''b a the a the cat the'' 3)"
proof -
  have ex: "get_top_words ''b a the a the cat the'' 3 = [(''the'', 3), (''a'', 2), (''b'', 1)]"
    by code_simp
  from top_words_bounded_positive_descending [of "''b a the a the cat the''" 3]
  show ?thesis unfolding ex by simp
qed



section \<open>Properties of the store\<close>

lemma last_entries_keys:
  "r \<in> set (last_entries t ps) \<Longrightarrow> title r = t \<and> word r \<in> fst ` set ps"
  by (induction ps) (auto split: if_splits)

lemma foldl_insert_or_replace:
  "foldl (insert_or_replace t) rows ps =
     filter (\<lambda>r. \<not> (title r = t \<and> word r \<in> fst ` set ps)) rows @ last_entries t ps"
proof (induction ps arbitrary: rows)
  case Nil
  show ?case by simp
next
  case (Cons p ps)
  let ?new = "\<lparr>title = t, word = fst p, frequency = snd p\<rparr>"
  let ?K = "\<lambda>r. \<not> (title r = t \<and> word r \<in> fst ` set ps)"
  have step: "foldl (insert_or_replace t) rows (p # ps) =
      filter ?K (filter (\<lambda>r. \<not> (title r = t \<and> word r = fst p)) rows @ [?new]) @ last_entries t ps"
    by (simp only: foldl_Cons Cons.IH insert_or_replace_def)
  have old: "filter ?K (filter (\<lambda>r. \<not> (title r = t \<and> word r = fst p)) rows)
        = filter (\<lambda>r. \<not> (title r = t \<and> word r \<in> fst ` set (p # ps))) rows"
    unfolding filter_filter by (rule filter_cong) auto
  have new: "filter ?K [?new] @ last_entries t ps = last_entries t (p # ps)"
    by simp
  have "foldl (insert_or_replace t) rows (p # ps) =
      filter (\<lambda>r. \<not> (title r = t \<and> word r \<in> fst ` set (p # ps))) rows
        @ (filter ?K [?new] @ last_entries t ps)"
    unfolding step filter_append old by simp
  then show ?case by (simp only: new)
qed

lemma filter_twice: "filter P (filter P xs) = filter P xs"
  by (induction xs) simp_all

lemma filter_last_entries:
  "filter (\<lambda>r. \<not> (title r = t \<and> word r \<in> fst ` set ps)) (last_entries t ps) = []"
  unfolding filter_empty_conv using last_entries_keys by blast

lemma foldl_insert_or_replace_twice:
  "foldl (insert_or_replace t) (foldl (insert_or_replace t) rows ps) ps =
   foldl (insert_or_replace t) rows ps"
  by (simp only: foldl_insert_or_replace filter_append filter_twice filter_last_entries append_Nil2)

text \<open>
  Claim C10. Saving is idempotent: for every state of the store, every title and every
  list of (word, count) pairs, \<open>save_to_database\<close> performed twice in a row leaves the
  store in the state one performance leaves it in. This holds when the backing store
  behaves the same way both times, and also when the first save went through, whatever
  the second does.
\<close>

theorem save_twice_is_save_once:
  "fst (save_to_database io t ps (fst (save_to_database io t ps d))) = fst (save_to_database io t ps d) \<and>
   fst (save_to_database io' t ps (fst (save_to_database Works t ps d))) = fst (save_to_database Works t ps d)"
  by (cases io; cases io'; cases d) (simp_all add: save_to_database_def foldl_insert_or_replace_twice)

lemma other_rows_kept:
  "filter (\<lambda>r. \<not> (title r = t \<and> word r \<in> fst ` set ps)) (foldl (insert_or_replace t) rows ps)
   = filter (\<lambda>r. \<not> (title r = t \<and> word r \<in> fst ` set ps)) rows"
  by (simp only: foldl_insert_or_replace filter_append filter_twice filter_last_entries append_Nil2)

lemma save_table_exists:
  "\<exists>rows'. fst (save_to_database io t ps (Some rows)) = Some rows'"
  by (cases io) (simp_all add: save_to_database_def)

text \<open>
  Claim C8. A save under a title writes only the (title, word) keys of the new word list:
  the rows with any other key, among them the rows of that title for words outside the
  new list, stay as they are, in their order, and none of them is removed.
\<close>

theorem save_keeps_other_words:
  "\<exists>rows'. fst (save_to_database io t ps (Some rows)) = Some rows' \<and>
     filter (\<lambda>r. \<not> (title r = t \<and> word r \<in> fst ` set ps)) rows'
       = filter (\<lambda>r. \<not> (title r = t \<and> word r \<in> fst ` set ps)) rows \<and>
     (\<forall>r \<in> set rows. title r = t \<and> word r \<notin> fst ` set ps \<longrightarrow> r \<in> set rows')"
proof (cases io)
  case Works
  let ?K = "\<lambda>r. \<not> (title r = t \<and> word r \<in> fst ` set ps)"
  let ?rows' = "foldl (insert_or_replace t) rows ps"
  have res: "fst (save_to_database io t ps (Some rows)) = Some ?rows'"
    using Works by (simp add: save_to_database_def)
  have eq: "filter ?K ?rows' = filter ?K rows" by (rule other_rows_kept)
  have "\<forall>r \<in> set rows. title r = t \<and> word r \<notin> fst ` set ps \<longrightarrow> r \<in> set ?rows'"
  proof (intro ballI impI)
    fix r assume "r \<in> set rows" and "title r = t \<and> word r \<notin> fst ` set ps"
    then have "r \<in> set (filter ?K rows)" by simp
    then have "r \<in> set (filter ?K ?rows')" by (simp only: eq)
    then show "r \<in> set ?rows'" by simp
  qed
  with res eq show ?thesis by blast
next
  case (Raises e)
  then show ?thesis by (simp add: save_to_database_def)
qed


theorem save_keeps_other_words_witness:
  "\<exists>rows'. fst (save_to_database Works ''X'' [(''cat'', 2)]
       (Some [\<lparr>title = ''X'', word = ''zebra'', frequency = 5\<rparr>,
              \<lparr>title = ''X'', word = ''cat'', frequency = 1\<rparr>])) = Some rows' \<and>
     \<lparr>title = ''X'', word = ''zebra'', frequency = 5\<rparr> \<in> set rows'"
  using save_keeps_other_words [of Works "''X''" "[(''cat'', 2)]"
      "[\<lparr>title = ''X'', word = ''zebra'', frequency = 5\<rparr>,
        \<lparr>title = ''X'', word = ''cat'', frequency = 1\<rparr>]"]
  by auto


lemma insert_or_replace_distinct:
  assumes "distinct (map key_of rows)"
  shows "distinct (map key_of (insert_or_replace t rows p))"
proof -
  let ?old = "filter (\<lambda>r. \<not> (title r = t \<and> word r = fst p)) rows"
  have "distinct (map key_of ?old)"
    using assms by (rule distinct_map_filter)
  moreover have "(t, fst p) \<notin> key_of ` set ?old"
    by (auto simp: key_of_def)
  ultimately show ?thesis
    by (simp add: insert_or_replace_def key_of_def)
qed

lemma foldl_insert_or_replace_distinct:
  "distinct (map key_of rows) \<Longrightarrow> distinct (map key_of (foldl (insert_or_replace t) rows ps))"
  by (induction ps arbitrary: rows) (simp_all add: insert_or_replace_distinct)

lemma save_one_per_key:
  "one_per_key d \<Longrightarrow> one_per_key (fst (save_to_database io t ps d))"
  by (cases io; cases d)
     (simp_all add: save_to_database_def one_per_key_def foldl_insert_or_replace_distinct)

lemma run_saves_one_per_key:
  "one_per_key d \<Longrightarrow> one_per_key (run_saves ops d)"
proof (induction ops arbitrary: d)
  case Nil
  then show ?case by (simp add: run_saves_def)
next
  case (Cons a ops)
  obtain io t ps where a: "a = (io, t, ps)" by (cases a)
  have "run_saves (a # ops) d = run_saves ops (fst (save_to_database io t ps d))"
    by (simp add: run_saves_def a)
  then show ?case
    using Cons.IH [OF save_one_per_key [OF Cons.prems]] by simp
qed

lemma run_saves_table_exists:
  "\<exists>rows'. run_saves ops (Some rows) = Some rows'"
proof (induction ops arbitrary: rows)
  case Nil
  show ?case by (simp add: run_saves_def)
next
  case (Cons a ops)
  obtain io t ps where a: "a = (io, t, ps)" by (cases a)
  obtain rows1 where r1: "fst (save_to_database io t ps (Some rows)) = Some rows1"
    using save_table_exists by blast
  have "run_saves (a # ops) (Some rows) = run_saves ops (Some rows1)"
    by (simp add: run_saves_def a r1)
  then show ?case using Cons.IH by simp
qed

lemma last_entries_other_word:
  "w \<notin> fst ` set ps \<Longrightarrow> filter (\<lambda>r. key_of r = (t, w)) (last_entries t ps) = []"
proof -
  assume w: "w \<notin> fst ` set ps"
  have "\<forall>r \<in> set (last_entries t ps). key_of r \<noteq> (t, w)"
  proof
    fix r assume "r \<in> set (last_entries t ps)"
    then have "word r \<in> fst ` set ps" by (rule last_entries_keys [THEN conjunct2])
    with w have "word r \<noteq> w" by blast
    then show "key_of r \<noteq> (t, w)" by (simp add: key_of_def)
  qed
  then show ?thesis by (simp only: filter_empty_conv)
qed

lemma map_of_rev_Cons:
  "map_of (rev (p # ps)) w =
     (case map_of (rev ps) w of
        Some f \<Rightarrow> Some f
      | None \<Rightarrow> if fst p = w then Some (snd p) else None)"
proof -
  have "map_of (rev (p # ps)) = map_of [p] ++ map_of (rev ps)"
    by (simp only: rev.simps map_of_append)
  then show ?thesis
    by (cases p) (simp add: map_add_def split: option.split)
qed

lemma map_of_rev_None: "(map_of (rev ps) w = None) = (w \<notin> fst ` set ps)"
  by (simp only: map_of_eq_None_iff set_rev)


lemma last_entries_of_word:
  "map_of (rev ps) w = Some f \<Longrightarrow>
   filter (\<lambda>r. key_of r = (t, w)) (last_entries t ps) = [\<lparr>title = t, word = w, frequency = f\<rparr>]"
proof (induction ps)
  case Nil
  then show ?case by simp
next
  case (Cons p ps)
  let ?new = "\<lparr>title = t, word = fst p, frequency = snd p\<rparr>"
  show ?case
  proof (cases "w \<in> fst ` set ps")
    case True
    then have "map_of (rev ps) w \<noteq> None" by (simp only: map_of_rev_None not_not)
    then obtain f' where f': "map_of (rev ps) w = Some f'" by blast
    from Cons.prems have "Some f' = Some f"
      by (simp only: map_of_rev_Cons f' option.case)
    then have "f' = f" by simp
    with f' have "map_of (rev ps) w = Some f" by simp
    then have ih: "filter (\<lambda>r. key_of r = (t, w)) (last_entries t ps)
        = [\<lparr>title = t, word = w, frequency = f\<rparr>]" by (rule Cons.IH)
    show ?thesis
    proof (cases "fst p \<in> fst ` set ps")
      case True
      then have "last_entries t (p # ps) = last_entries t ps" by simp
      then show ?thesis by (simp only: ih)
    next
      case False
      then have le: "last_entries t (p # ps) = ?new # last_entries t ps" by simp
      from True False have "fst p \<noteq> w" by blast
      then have "key_of ?new \<noteq> (t, w)" by (simp add: key_of_def)
      then show ?thesis by (simp only: le filter.simps if_False ih)
    qed
  next
    case False
    then have none: "map_of (rev ps) w = None" by (simp add: map_of_rev_None)
    from Cons.prems have "(if fst p = w then Some (snd p) else None) = Some f"
      by (simp only: map_of_rev_Cons none option.case)
    then have p: "fst p = w \<and> snd p = f"
      by (simp split: if_splits)
    from False p have le: "last_entries t (p # ps) = ?new # last_entries t ps" by simp
    have rest: "filter (\<lambda>r. key_of r = (t, w)) (last_entries t ps) = []"
      using False by (rule last_entries_other_word)
    from p have new: "?new = \<lparr>title = t, word = w, frequency = f\<rparr>" by simp
    have "key_of \<lparr>title = t, word = w, frequency = f\<rparr> = (t, w)" by (simp add: key_of_def)
    then show ?thesis by (simp only: le new filter.simps rest) simp
  qed
qed


lemma save_row_of_word:
  assumes "map_of (rev ps) w = Some f"
  shows "filter (\<lambda>r. key_of r = (t, w)) (foldl (insert_or_replace t) rows ps)
           = [\<lparr>title = t, word = w, frequency = f\<rparr>]"
proof -
  from assms have "map_of (rev ps) w \<noteq> None" by simp
  then have w: "w \<in> fst ` set ps" by (simp add: map_of_rev_None)
  have "\<forall>r \<in> set (filter (\<lambda>r. \<not> (title r = t \<and> word r \<in> fst ` set ps)) rows).
          key_of r \<noteq> (t, w)"
    using w by (auto simp: key_of_def)
  then have old: "filter (\<lambda>r. key_of r = (t, w))
      (filter (\<lambda>r. \<not> (title r = t \<and> word r \<in> fst ` set ps)) rows) = []"
    by (simp only: filter_empty_conv)
  show ?thesis
    by (simp only: foldl_insert_or_replace filter_append old last_entries_of_word [OF assms] append_Nil)
qed

lemma save_single:
  "fst (save_to_database Works t [(w, f)] (Some rows))
     = Some (filter (\<lambda>r. key_of r \<noteq> (t, w)) rows @ [\<lparr>title = t, word = w, frequency = f\<rparr>])"
proof -
  have "filter (\<lambda>r. \<not> (title r = t \<and> word r = w)) rows = filter (\<lambda>r. key_of r \<noteq> (t, w)) rows"
    by (rule filter_cong) (auto simp: key_of_def)
  then show ?thesis
    by (simp add: save_to_database_def insert_or_replace_def)
qed

lemma save_single_new:
  assumes "(t, w) \<notin> key_of ` set rows"
  shows "fst (save_to_database Works t [(w, f)] (Some rows))
     = Some (rows @ [\<lparr>title = t, word = w, frequency = f\<rparr>])"
proof -
  from assms have "\<forall>r \<in> set rows. key_of r \<noteq> (t, w)" by (auto simp: image_iff)
  then have "filter (\<lambda>r. key_of r \<noteq> (t, w)) rows = rows"
    by (simp only: filter_id_conv)
  then show ?thesis by (simp only: save_single)
qed

text \<open>
  Claim C5. Starting from the freshly created schema, after every sequence of saves the
  table holds at most one row, hence one frequency, per (title, word) key. A save of one
  pair deletes the rows with its key and appends the new row; when the key is not present
  this appends the row to the table as it is. After a save of a list of pairs the table
  holds, for every word of the list, exactly one row with the key (title, word), and it
  carries the frequency of the last pair of that word. The same holds of the single
  \<open>INSERT OR REPLACE\<close>, which leaves the rows with other keys untouched.
\<close>

theorem one_frequency_per_title_and_word:
  "initialize_database Works None = Inr (Some []) \<and>
   (\<exists>rows'. run_saves ops (Some []) = Some rows' \<and> distinct (map key_of rows')) \<and>
   fst (save_to_database Works t [(w, f)] (Some rows))
     = Some (filter (\<lambda>r. key_of r \<noteq> (t, w)) rows @ [\<lparr>title = t, word = w, frequency = f\<rparr>]) \<and>
   ((t, w) \<notin> key_of ` set rows \<longrightarrow>
      fst (save_to_database Works t [(w, f)] (Some rows))
        = Some (rows @ [\<lparr>title = t, word = w, frequency = f\<rparr>])) \<and>
   (map_of (rev ps) w = Some f \<longrightarrow>
      (\<exists>rows'. fst (save_to_database Works t ps (Some rows)) = Some rows' \<and>
         filter (\<lambda>r. key_of r = (t, w)) rows' = [\<lparr>title = t, word = w, frequency = f\<rparr>])) \<and>
   ((t, w) \<notin> key_of ` set rows \<longrightarrow>
      insert_or_replace t rows (w, f) = rows @ [\<lparr>title = t, word = w, frequency = f\<rparr>]) \<and>
   filter (\<lambda>r. key_of r = (t, w)) (insert_or_replace t rows (w, f))
     = [\<lparr>title = t, word = w, frequency = f\<rparr>] \<and>
   filter (\<lambda>r. key_of r \<noteq> (t, w)) (insert_or_replace t rows (w, f))
     = filter (\<lambda>r. key_of r \<noteq> (t, w)) rows"
proof (intro conjI)
  show "initialize_database Works None = Inr (Some [])"
    by (simp add: initialize_database_def)
  obtain rows' where r: "run_saves ops (Some []) = Some rows'"
    using run_saves_table_exists by blast
  have "one_per_key (run_saves ops (Some []))"
    by (rule run_saves_one_per_key) (simp add: one_per_key_def)
  then have "distinct (map key_of rows')" by (simp add: r one_per_key_def)
  with r show "\<exists>rows'. run_saves ops (Some []) = Some rows' \<and> distinct (map key_of rows')"
    by blast
  show "fst (save_to_database Works t [(w, f)] (Some rows))
     = Some (filter (\<lambda>r. key_of r \<noteq> (t, w)) rows @ [\<lparr>title = t, word = w, frequency = f\<rparr>])"
    by (rule save_single)
  show "(t, w) \<notin> key_of ` set rows \<longrightarrow>
      fst (save_to_database Works t [(w, f)] (Some rows))
        = Some (rows @ [\<lparr>title = t, word = w, frequency = f\<rparr>])"
    using save_single_new by blast
  show "map_of (rev ps) w = Some f \<longrightarrow>
      (\<exists>rows'. fst (save_to_database Works t ps (Some rows)) = Some rows' \<and>
         filter (\<lambda>r. key_of r = (t, w)) rows' = [\<lparr>title = t, word = w, frequency = f\<rparr>])"
  proof
    assume last: "map_of (rev ps) w = Some f"
    have "fst (save_to_database Works t ps (Some rows)) = Some (foldl (insert_or_replace t) rows ps)"
      by (simp add: save_to_database_def)
    with save_row_of_word [OF last]
    show "\<exists>rows'. fst (save_to_database Works t ps (Some rows)) = Some rows' \<and>
         filter (\<lambda>r. key_of r = (t, w)) rows' = [\<lparr>title = t, word = w, frequency = f\<rparr>]"
      by blast
  qed
  show "(t, w) \<notin> key_of ` set rows \<longrightarrow>
      insert_or_replace t rows (w, f) = rows @ [\<lparr>title = t, word = w, frequency = f\<rparr>]"
  proof
    assume "(t, w) \<notin> key_of ` set rows"
    then have "filter (\<lambda>r. \<not> (title r = t \<and> word r = w)) rows = rows"
      by (auto simp: filter_id_conv key_of_def image_iff)
    then show "insert_or_replace t rows (w, f) = rows @ [\<lparr>title = t, word = w, frequency = f\<rparr>]"
      by (simp add: insert_or_replace_def)
  qed
  have k: "\<And>r. (key_of r = (t, w)) = (title r = t \<and> word r = w)"
    by (simp add: key_of_def)
  show "filter (\<lambda>r. key_of r = (t, w)) (insert_or_replace t rows (w, f))
     = [\<lparr>title = t, word = w, frequency = f\<rparr>]"
    by (simp add: insert_or_replace_def k filter_empty_conv)
  show "filter (\<lambda>r. key_of r \<noteq> (t, w)) (insert_or_replace t rows (w, f))
     = filter (\<lambda>r. key_of r \<noteq> (t, w)) rows"
    by (simp add: insert_or_replace_def k)
qed

theorem one_frequency_per_title_and_word_witness:
  "(\<exists>rows'. run_saves [(Works, ''X'', [(''cat'', 1), (''cat'', 2)]), (Works, ''X'', [(''cat'', 3)])]
       (Some []) = Some rows' \<and> distinct (map key_of rows')) \<and>
   fst (save_to_database Works ''X'' [(''cat'', 1)] (Some []))
     = Some [\<lparr>title = ''X'', word = ''cat'', frequency = 1\<rparr>] \<and>
   (\<exists>rows'. fst (save_to_database Works ''X'' [(''cat'', 5), (''cat'', 6)]
        (Some [\<lparr>title = ''X'', word = ''cat'', frequency = 1\<rparr>,
               \<lparr>title = ''X'', word = ''dog'', frequency = 2\<rparr>])) = Some rows' \<and>
      filter (\<lambda>r. key_of r = (''X'', ''cat'')) rows'
        = [\<lparr>title = ''X'', word = ''cat'', frequency = 6\<rparr>]) \<and>
   insert_or_replace ''X'' [] (''cat'', 1) = [\<lparr>title = ''X'', word = ''cat'', frequency = 1\<rparr>]"
proof -
  have new: "(\<exists>rows'. run_saves [(Works, ''X'', [(''cat'', 1), (''cat'', 2)]), (Works, ''X'', [(''cat'', 3)])]
       (Some []) = Some rows' \<and> distinct (map key_of rows')) \<and>
     fst (save_to_database Works ''X'' [(''cat'', 1)] (Some []))
       = Some [\<lparr>title = ''X'', word = ''cat'', frequency = 1\<rparr>] \<and>
     insert_or_replace ''X'' [] (''cat'', 1) = [\<lparr>title = ''X'', word = ''cat'', frequency = 1\<rparr>]"
    using one_frequency_per_title_and_word
      [of "[(Works, ''X'', [(''cat'', 1), (''cat'', 2)]), (Works, ''X'', [(''cat'', 3)])]"
          "''X''" "''cat''" 1 "[]" "[]"]
    by simp
  have last: "map_of (rev [(''cat'', 5 :: int), (''cat'', 6)]) ''cat'' = Some 6" by simp
  have old: "\<exists>rows'. fst (save_to_database Works ''X'' [(''cat'', 5), (''cat'', 6)]
        (Some [\<lparr>title = ''X'', word = ''cat'', frequency = 1\<rparr>,
               \<lparr>title = ''X'', word = ''dog'', frequency = 2\<rparr>])) = Some rows' \<and>
      filter (\<lambda>r. key_of r = (''X'', ''cat'')) rows'
        = [\<lparr>title = ''X'', word = ''cat'', frequency = 6\<rparr>]"
    using last one_frequency_per_title_and_word
      [of "[]" "''X''" "''cat''" 6
          "[\<lparr>title = ''X'', word = ''cat'', frequency = 1\<rparr>,
            \<lparr>title = ''X'', word = ''dog'', frequency = 2\<rparr>]"
          "[(''cat'', 5), (''cat'', 6)]"]
    by blast
  from new old show ?thesis by blast
qed

lemma select_top_no_rows:
  "\<forall>r \<in> set rows. title r \<noteq> t \<Longrightarrow> select_top tie t rows = []"
proof -
  assume "\<forall>r \<in> set rows. title r \<noteq> t"
  then have "filter (\<lambda>r. title r = t) rows = []"
    by (simp add: filter_empty_conv)
  then show ?thesis by (simp add: select_top_def)
qed

lemma foldl_insert_or_replace_titles:
  "r \<in> set (foldl (insert_or_replace t) rows ps) \<Longrightarrow> r \<in> set rows \<or> title r = t"
  unfolding foldl_insert_or_replace using last_entries_keys by auto

lemma save_titles:
  assumes "fst (save_to_database io t ps (Some rows)) = Some rows'" and "r \<in> set rows'"
  shows "r \<in> set rows \<or> title r = t"
  using assms foldl_insert_or_replace_titles
  by (cases io) (auto simp: save_to_database_def)

lemma run_saves_titles:
  "run_saves ops (Some rows) = Some rows' \<Longrightarrow> r \<in> set rows' \<Longrightarrow>
   r \<in> set rows \<or> title r \<in> (\<lambda>a. fst (snd a)) ` set ops"
proof (induction ops arbitrary: rows)
  case Nil
  then show ?case by (simp add: run_saves_def)
next
  case (Cons a ops)
  obtain io t ps where a: "a = (io, t, ps)" by (cases a)
  obtain rows1 where r1: "fst (save_to_database io t ps (Some rows)) = Some rows1"
    using save_table_exists by blast
  have "run_saves (a # ops) (Some rows) = run_saves ops (Some rows1)"
    by (simp add: run_saves_def a r1)
  with Cons.prems have "run_saves ops (Some rows1) = Some rows'" by simp
  from Cons.IH [OF this Cons.prems(2)]
  have "r \<in> set rows1 \<or> title r \<in> (\<lambda>a. fst (snd a)) ` set ops" .
  then show ?case
  proof
    assume "r \<in> set rows1"
    with save_titles [OF r1] have "r \<in> set rows \<or> title r = t" by blast
    then show ?thesis by (auto simp: a)
  next
    assume "title r \<in> (\<lambda>a. fst (snd a)) ` set ops"
    then show ?thesis by auto
  qed
qed

text \<open>
  Claim C9. For a title under which no row is stored, \<open>search_database\<close> returns the
  absence signal \<open>None\<close>: not an empty list, and without an error being logged when the
  store works. This holds for every table without a row of the title, and so after every
  sequence of saves under other titles from the freshly created schema.
\<close>

theorem search_of_unsaved_title_is_None:
  "((\<forall>r \<in> set rows. title r \<noteq> t) \<longrightarrow>
      search_database Works tie t (Some rows) = (None, []) \<and>
      fst (search_database io tie t (Some rows)) = None) \<and>
   ((\<forall>a \<in> set ops. fst (snd a) \<noteq> t) \<longrightarrow>
      search_database Works tie t (run_saves ops (Some [])) = (None, []))"
proof (intro conjI impI)
  assume h: "\<forall>r \<in> set rows. title r \<noteq> t"
  show "search_database Works tie t (Some rows) = (None, [])"
    by (simp add: search_database_def select_top_no_rows [OF h])
  show "fst (search_database io tie t (Some rows)) = None"
    by (cases io) (simp_all add: search_database_def select_top_no_rows [OF h])
next
  assume h: "\<forall>a \<in> set ops. fst (snd a) \<noteq> t"
  obtain rows' where r: "run_saves ops (Some []) = Some rows'"
    using run_saves_table_exists by blast
  have "\<forall>r \<in> set rows'. title r \<noteq> t"
  proof
    fix r assume "r \<in> set rows'"
    from run_saves_titles [OF r this] have "title r \<in> (\<lambda>a. fst (snd a)) ` set ops" by simp
    with h show "title r \<noteq> t" by auto
  qed
  then show "search_database Works tie t (run_saves ops (Some [])) = (None, [])"
    by (simp add: r search_database_def select_top_no_rows)
qed

theorem search_of_unsaved_title_is_None_witness:
  "search_database Works rowid_order ''Emma''
     (Some [\<lparr>title = ''Moby Dick'', word = ''whale'', frequency = 7\<rparr>]) = (None, []) \<and>
   fst (search_database (Raises ''disk I/O error'') rowid_order ''Emma''
     (Some [\<lparr>title = ''Moby Dick'', word = ''whale'', frequency = 7\<rparr>])) = None \<and>
   search_database Works rowid_order ''Emma''
     (run_saves [(Works, ''Moby Dick'', [(''whale'', 7)])] (Some [])) = (None, [])"
  using search_of_unsaved_title_is_None
    [of "[\<lparr>title = ''Moby Dick'', word = ''whale'', frequency = 7\<rparr>]" "''Emma''" rowid_order
        "Raises ''disk I/O error''" "[(Works, ''Moby Dick'', [(''whale'', 7)])]"]
  by simp


lemma count_element_keys:
  "map fst (count_element w m) = (if w \<in> fst ` set m then map fst m else map fst m @ [w])"
  by (induction w m rule: count_element.induct) auto

lemma count_element_distinct:
  "distinct (map fst m) \<Longrightarrow> distinct (map fst (count_element w m))"
  by (simp add: count_element_keys)

lemma foldl_count_element_distinct:
  "distinct (map fst m) \<Longrightarrow> distinct (map fst (foldl (\<lambda>m w. count_element w m) m ws))"
  by (induction ws arbitrary: m) (simp_all add: count_element_distinct del: count_element.simps)

lemma Counter_distinct: "distinct (map fst (Counter ws))"
  unfolding Counter_def by (rule foldl_count_element_distinct) simp

lemma most_common_distinct:
  assumes "distinct (map fst m)"
  shows "distinct (map fst (most_common n m))"
proof -
  have "mset (map fst (sort_key (\<lambda>p. - snd p) m)) = mset (map fst m)"
    by simp
  then have "distinct (map fst (sort_key (\<lambda>p. - snd p) m))"
    using assms by (metis mset_eq_imp_distinct_iff)
  then have "distinct (take (nat n) (map fst (sort_key (\<lambda>p. - snd p) m)))"
    by (rule distinct_take)
  then show ?thesis by (simp add: most_common_def take_map)
qed

lemma top_words_distinct: "distinct (map fst (get_top_words text n))"
  unfolding get_top_words_def by (rule most_common_distinct) (rule Counter_distinct)

lemma last_entries_distinct:
  "distinct (map fst ps) \<Longrightarrow>
   last_entries t ps = map (\<lambda>p. \<lparr>title = t, word = fst p, frequency = snd p\<rparr>) ps"
  by (induction ps) (auto simp: image_iff)

lemma sorted_split:
  assumes "sorted (map f ys)"
    and "\<forall>a \<in> set ys. \<forall>b \<in> set ys. P a \<and> \<not> P b \<longrightarrow> f a < f b"
  shows "ys = filter P ys @ filter (\<lambda>x. \<not> P x) ys"
  using assms
proof (induction ys)
  case Nil
  show ?case by simp
next
  case (Cons y ys)
  then have ih: "ys = filter P ys @ filter (\<lambda>x. \<not> P x) ys" by simp
  show ?case
  proof (cases "P y")
    case True
    then show ?thesis using ih by simp
  next
    case False
    have "\<forall>z \<in> set ys. \<not> P z"
    proof
      fix z assume z: "z \<in> set ys"
      show "\<not> P z"
      proof
        assume "P z"
        with False z Cons.prems(2) have "f z < f y" by simp
        moreover from z Cons.prems(1) have "f y \<le> f z" by simp
        ultimately show False by simp
      qed
    qed
    then have "filter P ys = []" and "filter (\<lambda>x. \<not> P x) ys = ys"
      by (simp_all add: filter_empty_conv filter_id_conv)
    with False show ?thesis by simp
  qed
qed

lemma select_top_after_save:
  assumes stale: "\<forall>r \<in> set rows0. title r = t \<longrightarrow>
            word r \<notin> fst ` set ps \<and> length ps = 10 \<and> (\<forall>p \<in> set ps. frequency r < snd p)"
    and short: "length ps \<le> 10"
  shows "select_top tie t (rows0 @ map (\<lambda>p. \<lparr>title = t, word = fst p, frequency = snd p\<rparr>) ps)
         = map (\<lambda>r. (word r, frequency r))
             (sort_key (\<lambda>r. - frequency r)
                (sort_key tie (map (\<lambda>p. \<lparr>title = t, word = fst p, frequency = snd p\<rparr>) ps)))"
proof -
  let ?mk = "\<lambda>p. \<lparr>title = t, word = fst p, frequency = snd p\<rparr>"
  let ?k = "\<lambda>r. - frequency r"
  let ?P = "\<lambda>r. word r \<in> fst ` set ps"
  let ?S = "filter (\<lambda>r. title r = t) rows0"
  let ?N = "map ?mk ps"
  let ?ys = "sort_key ?k (sort_key tie (?S @ ?N))"
  let ?NN = "sort_key ?k (sort_key tie ?N)"
  let ?SS = "sort_key ?k (sort_key tie ?S)"
  have fN: "filter (\<lambda>r. title r = t) ?N = ?N" by (simp add: filter_id_conv)
  have sel: "select_top tie t (rows0 @ ?N) = map (\<lambda>r. (word r, frequency r)) (take 10 ?ys)"
    by (simp only: select_top_def filter_append fN)
  have PS: "filter ?P ?S = []" using stale by (auto simp: filter_empty_conv)
  have PN: "filter ?P ?N = ?N" by (simp add: filter_id_conv)
  have "\<forall>r \<in> set ?S. \<not> ?P r" using stale by auto
  then have nPS: "filter (\<lambda>r. \<not> ?P r) ?S = ?S" by (simp only: filter_id_conv)
  have nPN: "filter (\<lambda>r. \<not> ?P r) ?N = []" by (simp add: filter_empty_conv)
  have f1: "filter ?P ?ys = ?NN"
    by (simp only: filter_sort filter_append PS PN append_Nil)
  have f2: "filter (\<lambda>r. \<not> ?P r) ?ys = ?SS"
    by (simp only: filter_sort filter_append nPS nPN append_Nil2)
  have srt: "sorted (map ?k ?ys)" by (rule sorted_sort_key)
  have sep: "\<forall>a \<in> set ?ys. \<forall>b \<in> set ?ys. ?P a \<and> \<not> ?P b \<longrightarrow> ?k a < ?k b"
  proof (intro ballI impI)
    fix a b assume a: "a \<in> set ?ys" and b: "b \<in> set ?ys" and ab: "?P a \<and> \<not> ?P b"
    have inN: "\<And>x. x \<in> set ?N \<Longrightarrow> ?P x" by force
    have inS: "\<And>x. x \<in> set ?S \<Longrightarrow> \<not> ?P x" using stale by simp
    have mem: "\<And>x. x \<in> set ?ys \<Longrightarrow> x \<in> set ?S \<or> x \<in> set ?N" by simp
    from mem [OF a] inS ab have "a \<in> set ?N" by blast
    then obtain p where p: "p \<in> set ps" and ap: "a = ?mk p" by auto
    from mem [OF b] inN ab have "b \<in> set ?S" by blast
    with stale p have "frequency b < snd p" by auto
    then show "?k a < ?k b" by (simp add: ap)
  qed
  have "?ys = filter ?P ?ys @ filter (\<lambda>r. \<not> ?P r) ?ys"
    using srt sep by (rule sorted_split)
  then have ys: "?ys = ?NN @ ?SS" by (simp only: f1 f2)
  have "take 10 (?NN @ ?SS) = ?NN"
  proof (cases "?S = []")
    case True
    then show ?thesis using short by simp
  next
    case False
    then obtain r where "r \<in> set rows0" and "title r = t"
      by (auto simp: filter_empty_conv)
    with stale have "length ps = 10" by blast
    then show ?thesis by simp
  qed
  then have "take 10 ?ys = ?NN" by (simp only: ys)
  then show ?thesis by (simp only: sel)
qed


lemma save_distinct_words:
  assumes dist: "distinct (map fst ps)"
  shows "fst (save_to_database Works t ps (Some rows))
           = Some (filter (\<lambda>r. \<not> (title r = t \<and> word r \<in> fst ` set ps)) rows
                     @ map (\<lambda>p. \<lparr>title = t, word = fst p, frequency = snd p\<rparr>) ps)"
  by (simp only: save_to_database_def store_io.case option.case fst_conv
        foldl_insert_or_replace last_entries_distinct [OF dist])

lemma search_of_selection:
  "select_top tie t rows = rs \<Longrightarrow>
   fst (search_database Works tie t (Some rows)) = (if rs \<noteq> [] then Some rs else None)"
  by (auto simp: search_database_def Let_def)

text \<open>
  Claim C1, as amended. Let every row that the table already holds under title \<open>t\<close>
  have a word of the new list \<open>get_top_words text\<close>, or else be less frequent than each
  pair of that list, the list having ten pairs (such a row falls outside the ten rows of
  the search). For every text with at least one word, \<open>save_to_database t\<close> of the
  list followed by \<open>search_database t\<close> returns a list that holds exactly the saved
  pairs, each once, in descending order of frequency (pairs of equal frequency in the
  order of the store). For a text without a word nothing is saved and the search returns
  \<open>None\<close>.
\<close>

theorem save_then_search_returns_saved_pairs:
  "(\<forall>r \<in> set rows. title r = t \<longrightarrow>
       word r \<in> fst ` set (get_top_words text 10) \<or>
       (length (get_top_words text 10) = 10 \<and>
        (\<forall>p \<in> set (get_top_words text 10). frequency r < snd p))) \<longrightarrow>
     (get_top_words text 10 \<noteq> [] \<longrightarrow>
        (\<exists>rs. fst (search_database Works tie t
                   (fst (save_to_database Works t (get_top_words text 10) (Some rows)))) = Some rs \<and>
              mset rs = mset (get_top_words text 10) \<and>
              sorted_wrt (\<lambda>a b. snd b \<le> snd a) rs)) \<and>
     (get_top_words text 10 = [] \<longrightarrow>
        fst (search_database Works tie t
               (fst (save_to_database Works t (get_top_words text 10) (Some rows)))) = None)"
proof (intro impI conjI)
  let ?ps = "get_top_words text 10"
  let ?mk = "\<lambda>p. \<lparr>title = t, word = fst p, frequency = snd p\<rparr>"
  let ?rows0 = "filter (\<lambda>r. \<not> (title r = t \<and> word r \<in> fst ` set ?ps)) rows"
  let ?rs = "map (\<lambda>r. (word r, frequency r)) (sort_key (\<lambda>r. - frequency r) (sort_key tie (map ?mk ?ps)))"
  assume old: "\<forall>r \<in> set rows. title r = t \<longrightarrow>
       word r \<in> fst ` set ?ps \<or>
       (length ?ps = 10 \<and> (\<forall>p \<in> set ?ps. frequency r < snd p))"
  have saved: "fst (save_to_database Works t ?ps (Some rows)) = Some (?rows0 @ map ?mk ?ps)"
    using top_words_distinct by (rule save_distinct_words)
  have short: "length ?ps \<le> 10"
    using most_common_length [of 10] by (simp add: get_top_words_def)
  have stale: "\<forall>r \<in> set ?rows0. title r = t \<longrightarrow>
      word r \<notin> fst ` set ?ps \<and> length ?ps = 10 \<and> (\<forall>p \<in> set ?ps. frequency r < snd p)"
  proof (intro ballI impI)
    fix r assume r: "r \<in> set ?rows0" and tr: "title r = t"
    then have "r \<in> set rows" and out: "word r \<notin> fst ` set ?ps" by simp_all
    with old tr have "length ?ps = 10 \<and> (\<forall>p \<in> set ?ps. frequency r < snd p)" by blast
    with out show "word r \<notin> fst ` set ?ps \<and> length ?ps = 10 \<and> (\<forall>p \<in> set ?ps. frequency r < snd p)"
      by blast
  qed
  have sel: "select_top tie t (?rows0 @ map ?mk ?ps) = ?rs"
    using stale short by (rule select_top_after_save)
  have "mset ?rs = image_mset (\<lambda>r. (word r, frequency r)) (mset (map ?mk ?ps))"
    by simp
  also have "\<dots> = mset (map ((\<lambda>r. (word r, frequency r)) \<circ> ?mk) ?ps)"
    by (simp add: multiset.map_comp)
  also have "\<dots> = mset ?ps" by (simp add: comp_def)
  finally have ms: "mset ?rs = mset ?ps" .
  have len: "length ?rs = length ?ps" by simp
  have "sorted (map (\<lambda>r. - frequency r) (sort_key (\<lambda>r. - frequency r) (sort_key tie (map ?mk ?ps))))"
    by (rule sorted_sort_key)
  then have srt: "sorted_wrt (\<lambda>a b. snd b \<le> snd a) ?rs"
    by (simp add: sorted_wrt_map)
  {
    assume ne: "?ps \<noteq> []"
    with len have "?rs \<noteq> []" by (metis length_0_conv)
    then have "fst (search_database Works tie t (Some (?rows0 @ map ?mk ?ps))) = Some ?rs"
      using search_of_selection [OF sel] by metis
    with ms srt show "\<exists>rs. fst (search_database Works tie t
                   (fst (save_to_database Works t ?ps (Some rows)))) = Some rs \<and>
              mset rs = mset ?ps \<and> sorted_wrt (\<lambda>a b. snd b \<le> snd a) rs"
      unfolding saved by blast
  }
  {
    assume e: "?ps = []"
    with len have "?rs = []" by (metis length_0_conv)
    then show "fst (search_database Works tie t
               (fst (save_to_database Works t ?ps (Some rows)))) = None"
      unfolding saved using search_of_selection [OF sel] by metis
  }
qed

text \<open>
  Claim C1 as stated fails. For the text \<open>1 2 3\<close>, which has no word, the saved list is
  empty and the search returns \<open>None\<close>, not that list. With a row of an earlier save
  under the title in the table, the search after saving the words of \<open>cat\<close> returns the
  earlier pair as well.
\<close>

theorem lookup_after_save_differs_from_saved_pairs: "get_top_words ''1 2 3'' 10 = [] \<and>
   fst (search_database Works rowid_order ''X''
          (fst (save_to_database Works ''X'' (get_top_words ''1 2 3'' 10) (Some [])))) = None \<and>
   get_top_words ''cat'' 10 = [(''cat'', 1)] \<and>
   fst (search_database Works rowid_order ''X''
          (fst (save_to_database Works ''X'' (get_top_words ''cat'' 10)
             (Some [\<lparr>title = ''X'', word = ''zebra'', frequency = 5\<rparr>]))))
     = Some [(''zebra'', 5), (''cat'', 1)]"
  by code_simp


theorem save_then_search_returns_saved_pairs_witness:
  "(\<exists>rs. fst (search_database Works rowid_order ''X''
             (fst (save_to_database Works ''X'' (get_top_words ''b a a'' 10)
                (Some [\<lparr>title = ''Emma'', word = ''she'', frequency = 4\<rparr>,
                       \<lparr>title = ''X'', word = ''a'', frequency = 7\<rparr>])))) = Some rs \<and>
         mset rs = mset [(''a'', 2), (''b'', 1)] \<and>
         sorted_wrt (\<lambda>a b. snd b \<le> snd a) rs) \<and>
   (\<exists>rs. fst (search_database Works rowid_order ''X''
             (fst (save_to_database Works ''X'' (get_top_words ''a b c d e f g h i j'' 10)
                (Some [\<lparr>title = ''X'', word = ''zebra'', frequency = 0\<rparr>])))) = Some rs \<and>
         mset rs = mset (get_top_words ''a b c d e f g h i j'' 10) \<and>
         sorted_wrt (\<lambda>a b. snd b \<le> snd a) rs) \<and>
   fst (search_database Works rowid_order ''X''
          (fst (save_to_database Works ''X'' (get_top_words ''1 2 3'' 10) (Some [])))) = None"
proof -
  have g: "get_top_words ''b a a'' 10 = [(''a'', 2), (''b'', 1)]" by code_simp
  have e: "get_top_words ''1 2 3'' 10 = []" by code_simp
  have h: "get_top_words ''a b c d e f g h i j'' 10 =
      [(''a'', 1), (''b'', 1), (''c'', 1), (''d'', 1), (''e'', 1),
       (''f'', 1), (''g'', 1), (''h'', 1), (''i'', 1), (''j'', 1)]" by code_simp
  have one: "\<exists>rs. fst (search_database Works rowid_order ''X''
             (fst (save_to_database Works ''X'' (get_top_words ''b a a'' 10)
                (Some [\<lparr>title = ''Emma'', word = ''she'', frequency = 4\<rparr>,
                       \<lparr>title = ''X'', word = ''a'', frequency = 7\<rparr>])))) = Some rs \<and>
         mset rs = mset [(''a'', 2), (''b'', 1)] \<and>
         sorted_wrt (\<lambda>a b. snd b \<le> snd a) rs"
    using save_then_search_returns_saved_pairs
        [of "[\<lparr>title = ''Emma'', word = ''she'', frequency = 4\<rparr>,
              \<lparr>title = ''X'', word = ''a'', frequency = 7\<rparr>]" "''X''" "''b a a''" rowid_order]
    unfolding g by simp
  have two: "\<exists>rs. fst (search_database Works rowid_order ''X''
             (fst (save_to_database Works ''X'' (get_top_words ''a b c d e f g h i j'' 10)
                (Some [\<lparr>title = ''X'', word = ''zebra'', frequency = 0\<rparr>])))) = Some rs \<and>
         mset rs = mset (get_top_words ''a b c d e f g h i j'' 10) \<and>
         sorted_wrt (\<lambda>a b. snd b \<le> snd a) rs"
    using save_then_search_returns_saved_pairs
        [of "[\<lparr>title = ''X'', word = ''zebra'', frequency = 0\<rparr>]" "''X''"
            "''a b c d e f g h i j''" rowid_order]
    unfolding h by simp
  have three: "fst (search_database Works rowid_order ''X''
          (fst (save_to_database Works ''X'' (get_top_words ''1 2 3'' 10) (Some [])))) = None"
    using save_then_search_returns_saved_pairs [of "[]" "''X''" "''1 2 3''" rowid_order]
    unfolding e by simp
  from one two three show ?thesis by blast
qed

text \<open>
  Claim C7, as amended. \<open>search_database\<close> returns the same absence value \<open>None\<close> for a
  title without stored rows and for an error of the backing store. The error is logged
  (\<open>Error searching database: ...\<close> is printed) and the unknown title is not; this log is
  the only difference. \<open>on_search_title\<close> shows the same report, \<open>Book was not found.\<close>,
  in both cases.
\<close>

theorem search_failure_and_absence_share_report:
  "search_database (Raises e) tie t d = (None, [''Error searching database: '' @ e]) \<and>
   ((\<forall>r \<in> set rows. title r \<noteq> t) \<longrightarrow> search_database Works tie t (Some rows) = (None, [])) \<and>
   (py_strip title_entry \<noteq> [] \<longrightarrow>
      on_search_title (Raises e) tie title_entry st
        = st\<lparr>console := console st @ [''Error searching database: '' @ e],
             output_area := not_found_report\<rparr>) \<and>
   (py_strip title_entry \<noteq> [] \<and> db st = Some rows \<and>
    (\<forall>r \<in> set rows. title r \<noteq> py_strip title_entry) \<longrightarrow>
      on_search_title Works tie title_entry st = st\<lparr>console := console st, output_area := not_found_report\<rparr>)"
proof (intro conjI impI)
  show "search_database (Raises e) tie t d = (None, [''Error searching database: '' @ e])"
    by (simp add: search_database_def)
  show "search_database Works tie t (Some rows) = (None, [])" if "\<forall>r \<in> set rows. title r \<noteq> t"
    by (simp add: search_database_def select_top_no_rows [OF that])
  show "on_search_title (Raises e) tie title_entry st
        = st\<lparr>console := console st @ [''Error searching database: '' @ e],
             output_area := not_found_report\<rparr>" if "py_strip title_entry \<noteq> []"
    using that by (simp add: on_search_title_def search_database_def Let_def)
  show "on_search_title Works tie title_entry st = st\<lparr>console := console st, output_area := not_found_report\<rparr>"
    if "py_strip title_entry \<noteq> [] \<and> db st = Some rows \<and>
        (\<forall>r \<in> set rows. title r \<noteq> py_strip title_entry)"
  proof -
    from that have "select_top tie (py_strip title_entry) rows = []"
      by (simp add: select_top_no_rows)
    with that show ?thesis
      by (simp add: on_search_title_def search_database_def Let_def)
  qed
qed

theorem search_failure_and_absence_share_report_witness:
  "search_database Works rowid_order ''Emma''
      (Some [\<lparr>title = ''Moby Dick'', word = ''whale'', frequency = 7\<rparr>]) = (None, []) \<and>
   on_search_title (Raises ''disk I/O error'') rowid_order ''Moby Dick'' example_app
     = example_app\<lparr>console := [''Error searching database: disk I/O error''],
                   output_area := not_found_report\<rparr> \<and>
   on_search_title Works rowid_order ''Emma'' example_app
     = example_app\<lparr>output_area := not_found_report\<rparr>"
proof -
  have s1: "py_strip ''Emma'' = ''Emma''" by code_simp
  have s2: "py_strip ''Moby Dick'' = ''Moby Dick''" by code_simp
  show ?thesis
    using search_failure_and_absence_share_report
        [where e = "''disk I/O error''" and tie = rowid_order and t = "''Emma''"
           and rows = "[\<lparr>title = ''Moby Dick'', word = ''whale'', frequency = 7\<rparr>]"
           and title_entry = "''Moby Dick''" and st = example_app]
      search_failure_and_absence_share_report
        [where tie = rowid_order and t = "''Emma''"
           and rows = "[\<lparr>title = ''Moby Dick'', word = ''whale'', frequency = 7\<rparr>]"
           and title_entry = "''Emma''" and st = example_app]
    unfolding s1 s2 by (simp add: example_app_def)
qed

text \<open>
  Claim C7 as stated fails. The book below is stored. A search for it while the backing
  store raises returns \<open>None\<close> and is reported with the not-found text, exactly as the
  search for a title that is not stored.
\<close>

theorem store_failure_reported_as_not_found:
  "fst (search_database (Raises ''disk I/O error'') rowid_order ''Moby Dick'' (db example_app)) = None \<and>
   fst (search_database Works rowid_order ''Emma'' (db example_app)) = None \<and>
   fst (search_database Works rowid_order ''Moby Dick'' (db example_app)) = Some [(''whale'', 7)] \<and>
   output_area (on_search_title (Raises ''disk I/O error'') rowid_order ''Moby Dick'' example_app)
     = ''Book was not found.'' @ [CHR 0x0A] \<and>
   output_area (on_search_title Works rowid_order ''Emma'' example_app)
     = ''Book was not found.'' @ [CHR 0x0A]"
  by code_simp

text \<open>
  Claim C6. When \<open>download_book\<close> signals absence for the URL, \<open>on_fetch_from_url\<close>
  leaves the store as it is, and reports \<open>Book could not be downloaded.\<close>; besides the
  output area and the console nothing of the state changes. (An entry that is blank after
  stripping is never fetched: it is answered by the warning dialog.)
\<close>

theorem failed_fetch_leaves_store_untouched:
  "fst (download_book net (py_strip url_entry)) = None \<longrightarrow>
     db (on_fetch_from_url net io url_entry st) = db st \<and>
     (py_strip url_entry \<noteq> [] \<longrightarrow>
        on_fetch_from_url net io url_entry st
          = st\<lparr>console := console st @ snd (download_book net (py_strip url_entry)),
               output_area := download_failed_report\<rparr>)"
  by (cases "download_book net (py_strip url_entry)")
     (simp add: on_fetch_from_url_def Let_def)

theorem failed_fetch_leaves_store_untouched_witness:
  "fst (download_book offline ''http://'') = None \<and>
   db (on_fetch_from_url offline Works '' http:// '' example_app) = db example_app \<and>
   on_fetch_from_url offline Works '' http:// '' example_app
     = example_app\<lparr>console := [''we had an error downloaded book: <urlopen error no host given>''],
                   output_area := download_failed_report\<rparr>"
proof -
  have s: "py_strip '' http:// '' = ''http://''" by code_simp
  have d: "download_book offline ''http://''
             = (None, [''we had an error downloaded book: <urlopen error no host given>''])"
    by (simp add: download_book_def offline_def)
  show ?thesis
    using failed_fetch_leaves_store_untouched [of offline "'' http:// ''" Works example_app]
    unfolding s d by (simp add: example_app_def)
qed

section \<open>The words that are counted\<close>

lemma is_az_word: "is_az c \<Longrightarrow> is_word_char c"
  by (simp add: is_az_def is_word_char_def Let_def)

lemma char_at_nth: "char_at s k = (if k < length s then Some (s ! k) else None)"
  by (induction s k rule: char_at.induct) simp_all

lemma az_run_nth:
  "k < length (takeWhile is_az s) \<Longrightarrow> char_at s k = Some (s ! k) \<and> is_az (s ! k)"
proof -
  assume k: "k < length (takeWhile is_az s)"
  have "length (takeWhile is_az s) \<le> length s" by (rule length_takeWhile_le)
  with k have "k < length s" by simp
  moreover have "takeWhile is_az s ! k = s ! k" using k by (rule takeWhile_nth)
  moreover have "is_az (takeWhile is_az s ! k)"
    using k by (meson nth_mem set_takeWhileD)
  ultimately show ?thesis by (simp add: char_at_nth)
qed

lemma inner_not_boundary:
  assumes "1 \<le> k" and "k < length (takeWhile is_az s)"
  shows "\<not> at_boundary (char_at s (k - 1)) (char_at s k)"
proof -
  from assms have "k - 1 < length (takeWhile is_az s)" by simp
  from az_run_nth [OF this] az_run_nth [OF assms(2)] show ?thesis
    by (simp add: at_boundary_def is_az_word)
qed

lemma find_candidates:
  "find (\<lambda>k. at_boundary (char_at s (k - 1)) (char_at s k))
        (rev [1 ..< Suc (length (takeWhile is_az s))])
   = (if takeWhile is_az s \<noteq> [] \<and> \<not> wordy (char_at s (length (takeWhile is_az s)))
      then Some (length (takeWhile is_az s)) else None)"
proof -
  let ?n = "length (takeWhile is_az s)"
  let ?B = "\<lambda>k. at_boundary (char_at s (k - 1)) (char_at s k)"
  show ?thesis
  proof (cases "takeWhile is_az s = []")
    case True
    then show ?thesis by simp
  next
    case False
    then have pos: "1 \<le> ?n" by (simp add: Suc_le_eq)
    then have split: "rev [1 ..< Suc ?n] = ?n # rev [1 ..< ?n]" by simp
    have inner: "find ?B (rev [1 ..< ?n]) = None"
      using inner_not_boundary by (simp add: find_None_iff)
    from pos have "?n - 1 < ?n" by linarith
    from az_run_nth [OF this] have "wordy (char_at s (?n - 1))"
      by (simp add: is_az_word)
    then have "?B ?n = (\<not> wordy (char_at s ?n))"
      by (simp add: at_boundary_def)
    with False inner show ?thesis unfolding split by simp
  qed
qed

lemma match_here_eq:
  "match_here prev s =
     (if \<not> wordy prev \<and> takeWhile is_az s \<noteq> []
          \<and> \<not> wordy (char_at s (length (takeWhile is_az s)))
      then Some (length (takeWhile is_az s)) else None)"
proof (cases "takeWhile is_az s = []")
  case True
  then show ?thesis unfolding match_here_def find_candidates by simp
next
  case False
  then have "0 < length (takeWhile is_az s)" by simp
  from az_run_nth [OF this] have "wordy (char_at s 0)" by (simp add: is_az_word)
  then have "at_boundary prev (char_at s 0) = (\<not> wordy prev)"
    by (auto simp: at_boundary_def)
  then show ?thesis unfolding match_here_def find_candidates by simp
qed


lemma char_at_append: "char_at (xs @ ys) (length xs) = char_at ys 0"
  by (induction xs) simp_all

lemma char_after_az_run:
  "char_at s (length (takeWhile is_az s)) = char_at (dropWhile is_az s) 0"
  using char_at_append [of "takeWhile is_az s" "dropWhile is_az s"] by simp

lemma word_prefix_append:
  assumes "\<forall>x \<in> set xs. is_word_char x"
  shows "takeWhile is_word_char (xs @ ys) = xs @ takeWhile is_word_char ys"
    and "dropWhile is_word_char (xs @ ys) = dropWhile is_word_char ys"
  using assms by (simp_all add: takeWhile_append2 dropWhile_append2)

lemma az_run_all_word: "\<forall>x \<in> set (takeWhile is_az s). is_word_char x"
  by (auto dest: set_takeWhileD intro: is_az_word)

lemma no_word_head:
  "\<not> wordy (char_at ys 0) \<Longrightarrow>
   takeWhile is_word_char ys = [] \<and> dropWhile is_word_char ys = ys"
  by (cases ys) simp_all

lemma word_head:
  "wordy (char_at ys 0) \<Longrightarrow> \<exists>d r. ys = d # r \<and> is_word_char d"
  by (cases ys) simp_all

lemma az_run_delimited:
  assumes "\<not> wordy (char_at (dropWhile is_az s) 0)"
  shows "takeWhile is_word_char s = takeWhile is_az s"
    and "dropWhile is_word_char s = dropWhile is_az s"
    and "dropWhile is_word_char (dropWhile is_az s) = dropWhile is_az s"
proof -
  let ?xs = "takeWhile is_az s" and ?ys = "dropWhile is_az s"
  from assms have ys: "takeWhile is_word_char ?ys = [] \<and> dropWhile is_word_char ?ys = ?ys"
    by (rule no_word_head)
  have s: "s = ?xs @ ?ys" by simp
  have "takeWhile is_word_char (?xs @ ?ys) = ?xs @ takeWhile is_word_char ?ys"
    by (rule word_prefix_append(1) [OF az_run_all_word])
  then show "takeWhile is_word_char s = ?xs" using ys by simp
  have "dropWhile is_word_char (?xs @ ?ys) = dropWhile is_word_char ?ys"
    by (rule word_prefix_append(2) [OF az_run_all_word])
  then show "dropWhile is_word_char s = ?ys" using ys by simp
  show "dropWhile is_word_char ?ys = ?ys" using ys by simp
qed

lemma az_run_glued:
  assumes "wordy (char_at (dropWhile is_az s) 0)"
  shows "\<not> list_all is_az (takeWhile is_word_char s)"
proof -
  let ?xs = "takeWhile is_az s" and ?ys = "dropWhile is_az s"
  from word_head [OF assms] obtain d r where ys: "?ys = d # r" and d: "is_word_char d"
    by blast
  from ys have "?ys \<noteq> []" by simp
  then have "\<not> is_az (hd ?ys)" by (rule hd_dropWhile)
  then have nd: "\<not> is_az d" by (simp add: ys)
  have whole: "?xs @ d # r = s"
    using takeWhile_dropWhile_id [of is_az s] by (simp only: ys)
  have "takeWhile is_word_char (?xs @ d # r) = ?xs @ takeWhile is_word_char (d # r)"
    by (rule word_prefix_append(1) [OF az_run_all_word])
  then have "takeWhile is_word_char s = ?xs @ d # takeWhile is_word_char r"
    using d by (simp only: whole takeWhile.simps if_True)
  then show ?thesis using nd by (simp add: list_all_iff)
qed

lemma runs_word_head:
  "is_word_char c \<Longrightarrow>
   runs is_word_char (c # cs)
     = takeWhile is_word_char (c # cs) # runs is_word_char (dropWhile is_word_char (c # cs))"
  by simp

lemma letter_words_word_head:
  "is_word_char c \<Longrightarrow>
   letter_words (c # cs) =
     (if list_all is_az (takeWhile is_word_char (c # cs))
      then takeWhile is_word_char (c # cs) # letter_words (dropWhile is_word_char (c # cs))
      else letter_words (dropWhile is_word_char (c # cs)))"
  unfolding letter_words_def by (simp only: runs_word_head filter.simps)

lemma letter_words_other_head:
  "\<not> is_word_char c \<Longrightarrow> letter_words (c # cs) = letter_words cs"
  by (simp add: letter_words_def)

lemma findall_letter_words:
  "findall prev s =
     (if wordy prev then letter_words (dropWhile is_word_char s) else letter_words s)"
proof (induction prev s rule: findall.induct)
  case (1 prev)
  show ?case by (simp add: letter_words_def)
next
  case (2 prev c cs)
  let ?s = "c # cs"
  let ?n = "length (takeWhile is_az ?s)"
  have after: "char_at ?s ?n = char_at (dropWhile is_az ?s) 0"
    by (rule char_after_az_run)
  show ?case
  proof (cases "\<not> wordy prev \<and> is_az c \<and> \<not> wordy (char_at ?s ?n)")
    case True
    then have ne: "takeWhile is_az ?s \<noteq> []" by simp
    with True have m: "match_here prev ?s = Some ?n"
      by (simp only: match_here_eq if_True simp_thms)
    have w: "is_word_char c" using True by (simp add: is_az_word)
    from ne have "?n - 1 < ?n" by simp
    from az_run_nth [OF this] have last_wordy: "wordy (char_at ?s (?n - 1))"
      by (simp add: is_az_word)
    from True have delim: "\<not> wordy (char_at (dropWhile is_az ?s) 0)"
      by (simp only: after simp_thms)
    note d = az_run_delimited [OF delim]
    have tk: "take ?n ?s = takeWhile is_az ?s"
      by (rule takeWhile_eq_take [symmetric])
    have dr: "drop ?n ?s = dropWhile is_az ?s"
      by (rule dropWhile_eq_drop [symmetric])
    have "findall prev ?s = take ?n ?s # findall (char_at ?s (?n - 1)) (drop ?n ?s)"
      by (simp only: findall.simps m option.case)
    also have "findall (char_at ?s (?n - 1)) (drop ?n ?s)
        = letter_words (dropWhile is_word_char (drop ?n ?s))"
      using "2.IH"(2) [OF m] last_wordy by simp
    finally have lhs: "findall prev ?s = takeWhile is_az ?s # letter_words (dropWhile is_az ?s)"
      by (simp only: tk dr d(3))
    have "list_all is_az (takeWhile is_az ?s)"
      by (auto simp: list_all_iff dest: set_takeWhileD)
    then have "letter_words ?s = takeWhile is_az ?s # letter_words (dropWhile is_az ?s)"
      by (simp only: letter_words_word_head [OF w] d(1) d(2) if_True)
    with lhs True show ?thesis by simp
  next
    case False
    then have m: "match_here prev ?s = None"
      by (auto simp: match_here_eq)
    have step: "findall prev ?s = findall (Some c) cs"
      by (simp only: findall.simps m option.case)
    note ih = "2.IH"(1) [OF m]
    show ?thesis
    proof (cases "is_word_char c")
      case nw: False
      then show ?thesis
        unfolding step ih by (simp add: letter_words_other_head)
    next
      case w: True
      then have rec: "findall prev ?s = letter_words (dropWhile is_word_char cs)"
        unfolding step ih by simp
      show ?thesis
      proof (cases "wordy prev")
        case True
        then show ?thesis unfolding rec using w by simp
      next
        case np: False
        have "\<not> list_all is_az (takeWhile is_word_char ?s)"
        proof (cases "is_az c")
          case False
          then show ?thesis using w by simp
        next
          case True
          with np False have "wordy (char_at ?s ?n)" by blast
          then have "wordy (char_at (dropWhile is_az ?s) 0)" by (simp only: after)
          then show ?thesis by (rule az_run_glued)
        qed
        then have "letter_words ?s = letter_words (dropWhile is_word_char ?s)"
          by (simp only: letter_words_word_head [OF w] if_False)
        then show ?thesis unfolding rec using np w by simp
      qed
    qed
  qed
qed


lemma count_element_lookup:
  "map_of (count_element w m) v =
     (if v = w then Some (case map_of m w of None \<Rightarrow> 1 | Some c \<Rightarrow> c + 1) else map_of m v)"
  by (induction w m rule: count_element.induct) auto

lemma foldl_count_element_lookup:
  "map_of (foldl (\<lambda>m w. count_element w m) m ws) v =
     (if v \<in> set ws
      then Some ((case map_of m v of None \<Rightarrow> 0 | Some c \<Rightarrow> c) + int (count_list ws v))
      else map_of m v)"
proof (induction ws arbitrary: m)
  case Nil
  show ?case by simp
next
  case (Cons w ws)
  show ?case
    by (simp add: Cons.IH count_element_lookup split: option.split del: count_element.simps)
qed

lemma Counter_lookup:
  "map_of (Counter ws) v = (if v \<in> set ws then Some (int (count_list ws v)) else None)"
  by (simp add: Counter_def foldl_count_element_lookup)

lemma most_common_entry:
  assumes "(w, c) \<in> set (most_common n (Counter ws))"
  shows "w \<in> set ws \<and> c = int (count_list ws w)"
proof -
  from assms most_common_subset have "(w, c) \<in> set (Counter ws)" by blast
  then have "map_of (Counter ws) w = Some c"
    using Counter_distinct by simp
  then show ?thesis
    by (simp add: Counter_lookup split: if_splits)
qed

text \<open>
  Claim C3, as amended. For every text, the tokens that \<open>get_top_words\<close> counts are
  exactly the maximal runs of word characters (letters, digits, underscore, accented
  letters included) of the lower-cased text that consist of the lowercase ASCII letters
  only: a run of letters next to punctuation or white space is a word, a run of letters
  next to a digit, an underscore or an accented letter is not. Every entry of the result is
  such a token with the number of its occurrences. In particular
  \<open>get_top_words "the the the cat" 2 = [("the", 3), ("cat", 1)]\<close>.
\<close>

theorem top_words_counts_letter_only_words:
  "findall None (py_lower text) = letter_words (py_lower text) \<and>
   get_top_words text n = most_common n (Counter (letter_words (py_lower text))) \<and>
   (\<forall>(w, c) \<in> set (get_top_words text n).
      w \<in> set (letter_words (py_lower text)) \<and>
      c = int (count_list (letter_words (py_lower text)) w)) \<and>
   get_top_words ''the the the cat'' 2 = [(''the'', 3), (''cat'', 1)]"
proof (intro conjI)
  show f: "findall None (py_lower text) = letter_words (py_lower text)"
    by (simp add: findall_letter_words)
  show g: "get_top_words text n = most_common n (Counter (letter_words (py_lower text)))"
    by (simp only: get_top_words_def f)
  show "\<forall>(w, c) \<in> set (get_top_words text n).
      w \<in> set (letter_words (py_lower text)) \<and>
      c = int (count_list (letter_words (py_lower text)) w)"
    unfolding g using most_common_entry by blast
  show "get_top_words ''the the the cat'' 2 = [(''the'', 3), (''cat'', 1)]"
    by code_simp
qed

theorem top_words_counts_letter_only_words_witness:
  "findall None (py_lower ''Don't stop, abc123'') = [''don'', ''t'', ''stop''] \<and>
   letter_words (py_lower ''Don't stop, abc123'') = [''don'', ''t'', ''stop''] \<and>
   get_top_words ''the the the cat'' 2 = [(''the'', 3), (''cat'', 1)] \<and>
   ''cat'' \<in> set (letter_words (py_lower ''the the the cat'')) \<and>
   (1 :: int) = int (count_list (letter_words (py_lower ''the the the cat'')) ''cat'')"
proof -
  have l: "letter_words (py_lower ''Don't stop, abc123'') = [''don'', ''t'', ''stop'']"
    by code_simp
  have g: "get_top_words ''the the the cat'' 2 = [(''the'', 3), (''cat'', 1)]"
    by code_simp
  from top_words_counts_letter_only_words [of "''Don't stop, abc123''" 0]
  have a: "findall None (py_lower ''Don't stop, abc123'') = [''don'', ''t'', ''stop'']"
    unfolding l by simp
  from top_words_counts_letter_only_words [of "''the the the cat''" 2]
  have "\<forall>(w, c) \<in> set (get_top_words ''the the the cat'' 2).
      w \<in> set (letter_words (py_lower ''the the the cat'')) \<and>
      c = int (count_list (letter_words (py_lower ''the the the cat'')) w)"
    by blast
  then have b: "''cat'' \<in> set (letter_words (py_lower ''the the the cat'')) \<and>
     (1 :: int) = int (count_list (letter_words (py_lower ''the the the cat'')) ''cat'')"
    unfolding g by simp
  from a l g b show ?thesis by simp
qed

text \<open>
  Claim C3 as stated fails. In \<open>abc123\<close> the maximal run of lowercase ASCII letters is
  \<open>abc\<close>, and in \<open>Caf\<close> followed by the character U+00C9, lower-cased, it is \<open>caf\<close>;
  neither is extracted, because \<open>\b\<close> does not hold between a letter and a digit or an
  accented letter. Next to a comma the run is extracted.
\<close>

theorem letter_run_next_to_digit_or_accent_not_counted:
  "runs is_az (py_lower ''abc123'') = [''abc''] \<and>
   findall None (py_lower ''abc123'') = [] \<and>
   get_top_words ''abc123'' 10 = [] \<and>
   runs is_az (py_lower (''Caf'' @ [CHR 0xC9])) = [''caf''] \<and>
   findall None (py_lower (''Caf'' @ [CHR 0xC9])) = [] \<and>
   get_top_words (''Caf'' @ [CHR 0xC9]) 10 = [] \<and>
   get_top_words ''abc, 123'' 10 = [(''abc'', 1)]"
  by code_simp

section \<open>The title of a book\<close>

lemma py_split_nl_nonempty: "py_split_nl s \<noteq> []"
  by (induction s) (auto split: list.split)

lemma py_split_nl_join: "join_nl (py_split_nl s) = s"
proof (induction s)
  case Nil
  show ?case by simp
next
  case (Cons c cs)
  obtain l ls where ls: "py_split_nl cs = l # ls"
    using py_split_nl_nonempty [of cs] by (cases "py_split_nl cs") auto
  with Cons show ?case by (cases ls) auto
qed

lemma py_split_nl_no_newline: "list_all (\<lambda>l. CHR 0x0A \<notin> set l) (py_split_nl s)"
  by (induction s) (auto split: list.split)

lemma first_title_find:
  "first_title ls =
     (case find (\<lambda>l. take 6 (py_lower (py_strip l)) = ''title:'') ls of
        None \<Rightarrow> ''Unknown Title''
      | Some l \<Rightarrow> py_strip (drop 6 (py_strip l)))"
  by (induction ls) simp_all

text \<open>
  Claim C4, as amended. The lines of the text are its pieces between newlines.
  \<open>extract_title\<close> takes the first line whose trimmed form (white space removed at both
  ends) starts with \<open>title:\<close> in any mix of upper and lower case, and returns the rest of
  that trimmed line after the six characters of the marker, trimmed again; without such a
  line it returns \<open>Unknown Title\<close>. In particular
  \<open>extract_title "Title: Moby Dick\nChapter 1" = "Moby Dick"\<close> and
  \<open>extract_title "no marker here" = "Unknown Title"\<close>.
\<close>

theorem extract_title_first_marked_line:
  "extract_title text =
     (case find (\<lambda>l. py_lower (take 6 (py_strip l)) = ''title:'') (py_split_nl text) of
        None \<Rightarrow> ''Unknown Title''
      | Some l \<Rightarrow> py_strip (drop 6 (py_strip l))) \<and>
   join_nl (py_split_nl text) = text \<and>
   list_all (\<lambda>l. CHR 0x0A \<notin> set l) (py_split_nl text) \<and>
   extract_title (''Title: Moby Dick'' @ [CHR 0x0A] @ ''Chapter 1'') = ''Moby Dick'' \<and>
   extract_title ''no marker here'' = ''Unknown Title''"
proof (intro conjI)
  have "\<And>l. py_lower (take 6 (py_strip l)) = take 6 (py_lower (py_strip l))"
    by (simp add: py_lower_def take_map)
  then show "extract_title text =
     (case find (\<lambda>l. py_lower (take 6 (py_strip l)) = ''title:'') (py_split_nl text) of
        None \<Rightarrow> ''Unknown Title''
      | Some l \<Rightarrow> py_strip (drop 6 (py_strip l)))"
    by (simp add: extract_title_def first_title_find)
  show "join_nl (py_split_nl text) = text" by (rule py_split_nl_join)
  show "list_all (\<lambda>l. CHR 0x0A \<notin> set l) (py_split_nl text)" by (rule py_split_nl_no_newline)
  show "extract_title (''Title: Moby Dick'' @ [CHR 0x0A] @ ''Chapter 1'') = ''Moby Dick''"
    by code_simp
  show "extract_title ''no marker here'' = ''Unknown Title''"
    by code_simp
qed

text \<open>
  Claim C4 as stated fails. The marker is looked for after the white space in front of
  the line has been removed, not at the start of the line itself: an indented marker line
  is used, also when a later line starts with the marker.
\<close>

theorem indented_marker_line_is_used:
  "extract_title (''  Title: A'' @ [CHR 0x0A] @ ''Title: B'') = ''A'' \<and>
   spec_extract_title (''  Title: A'' @ [CHR 0x0A] @ ''Title: B'') = ''B'' \<and>
   extract_title ''   Title: X'' = ''X'' \<and>
   spec_extract_title ''   Title: X'' = ''Unknown Title''"
  by code_simp

end
